theory Spec2Isabelle
  imports Main "HOL-Library.AList"
begin

section \<open>JavaScript values used by the provider\<close>

text \<open>
  Strings are lists of characters; a character stands for one UTF-16 code unit of the
  JavaScript string, so \<open>length\<close> is \<^verbatim>\<open>text.length\<close>. Numbers that the code only
  counts with (lengths, indices, window sizes) are integers.
\<close>

definition substring :: "string \<Rightarrow> int \<Rightarrow> int \<Rightarrow> string" where
  \<comment> \<open>\<^verbatim>\<open>String.prototype.substring\<close>: both indices are clamped to \<open>[0, length]\<close>
      and swapped when the first exceeds the second.\<close>
  "substring s a b =
     (let n = int (length s);
          a' = max 0 (min a n);
          b' = max 0 (min b n);
          lo = min a' b';
          hi = max a' b'
      in take (nat (hi - lo)) (drop (nat lo) s))"

section \<open>The default chunker\<close>

text \<open>
  \<^verbatim>\<open>simpleChunker(text, chunkSize = 300, overlap = 50)\<close>. The \<^verbatim>\<open>while\<close> loop may run
  forever (when \<open>chunkSize - overlap \<le> 0\<close>), so it is a partial function whose value
  \<open>None\<close> stands for not returning. Each pushed chunk is kept together with the window
  start \<open>i\<close> at which it was cut; \<open>simpleChunker\<close> forgets the starts again.
\<close>

partial_function (option) chunk_loop ::
  "string \<Rightarrow> int \<Rightarrow> int \<Rightarrow> int \<Rightarrow> (int \<times> string) list \<Rightarrow> (int \<times> string) list option" where
  "chunk_loop text chunkSize overlap i chunks =
     (if i < int (length text) then
        (let endIdx = min (i + chunkSize) (int (length text));
             chunks' = chunks @ [(i, substring text i endIdx)];
             i' = i + (chunkSize - overlap)
         in if endIdx = int (length text) then Some chunks'
            else chunk_loop text chunkSize overlap i' chunks')
      else Some chunks)"

declare chunk_loop.simps [code]

definition simpleChunker_trace :: "string \<Rightarrow> int \<Rightarrow> int \<Rightarrow> (int \<times> string) list option" where
  "simpleChunker_trace text chunkSize overlap =
     (if int (length text) \<le> chunkSize then Some [(0, text)]
      else chunk_loop text chunkSize overlap 0 [])"

definition simpleChunker :: "string \<Rightarrow> int \<Rightarrow> int \<Rightarrow> string list option" where
  "simpleChunker text chunkSize overlap =
     map_option (map snd) (simpleChunker_trace text chunkSize overlap)"

definition defaultChunkSize :: int where "defaultChunkSize = 300"
definition defaultOverlap :: int where "defaultOverlap = 50"

definition window :: "string \<Rightarrow> int \<Rightarrow> int \<Rightarrow> int \<times> string" where
  \<comment> \<open>The window cut at start \<open>s\<close>: what one loop iteration pushes when \<open>i = s\<close>.\<close>
  "window text chunkSize s = (s, substring text s (min (s + chunkSize) (int (length text))))"

section \<open>Data model of the provider\<close>

text \<open>
  Payload and metadata values are the JSON scalars. An object (\<^verbatim>\<open>Record<string, any>\<close>)
  is the list of its own properties in enumeration order; \<open>AList.update\<close> assigns a
  property (in place when the key exists, appended otherwise) and \<open>AList.delete\<close> is
  the \<^verbatim>\<open>delete\<close> operator.
\<close>

datatype jsval = JNull | JBool bool | JNum int | JStr string

type_synonym jsobj = "(string \<times> jsval) list"

definition obj_spread :: "jsobj option \<Rightarrow> jsobj" where
  \<comment> \<open>\<^verbatim>\<open>{ ...x }\<close>: spreading \<^verbatim>\<open>undefined\<close> gives the empty object.\<close>
  "obj_spread x = (case x of None \<Rightarrow> [] | Some obj \<Rightarrow> obj)"

definition obj_keys :: "jsobj \<Rightarrow> string list" where
  "obj_keys obj = map fst obj"

definition array_get :: "'a option list \<Rightarrow> nat \<Rightarrow> 'a option" where
  \<comment> \<open>\<^verbatim>\<open>xs[i]\<close> on an array whose slots may be \<^verbatim>\<open>undefined\<close>: reading past the end
      is \<^verbatim>\<open>undefined\<close> too.\<close>
  "array_get xs i = (if i < length xs then xs ! i else None)"

text \<open>
  A thrown value is an \<^verbatim>\<open>Error\<close> instance with its message, or anything else, kept as
  the text \<^verbatim>\<open>String(error)\<close> gives.
\<close>

datatype thrown = JsError string | JsThrown string

fun error_text :: "thrown \<Rightarrow> string" where
  \<comment> \<open>\<^verbatim>\<open>error instanceof Error ? error.message : String(error)\<close>\<close>
  "error_text (JsError message) = message"
| "error_text (JsThrown s) = s"

text \<open>Point ids of the store are numbers or strings; a scan cursor is a point id.\<close>

datatype point_id = IdNum nat | IdStr string

fun truthy :: "point_id option \<Rightarrow> bool" where
  \<comment> \<open>JavaScript truthiness of \<^verbatim>\<open>number | string | null | undefined\<close>\<close>
  "truthy None = False"
| "truthy (Some (IdNum n)) = (n \<noteq> 0)"
| "truthy (Some (IdStr s)) = (s \<noteq> [])"

record 'v point_struct =
  ps_id :: string
  ps_vector :: 'v
  ps_payload :: jsobj

record 'v upsert_request =
  up_wait :: bool
  up_points :: "'v point_struct list"

record ('v, 's) search_request =
  sq_vector :: 'v
  sq_limit :: int
  sq_score_threshold :: "'s option"
  sq_with_payload :: bool
  sq_with_vector :: bool

record 's scored_point =
  sp_score :: 's
  sp_payload :: "jsobj option"

record condition =
  cond_key :: string
  cond_match_value :: jsval

record scroll_request =
  sr_filter_must :: "condition list"
  sr_limit :: int
  sr_offset :: "point_id option"
  sr_with_payload :: bool
  sr_with_vector :: bool

record 'v qrecord =
  rec_id :: point_id
  rec_payload :: "jsobj option"
  rec_vector :: "'v option"

record 'v scroll_response =
  resp_points :: "'v qrecord list"
  resp_next_page_offset :: "point_id option"

record 's retrieved_chunk =
  rc_content :: jsval
  rc_score :: 's
  rc_metadata :: "jsobj option"

record 's retrieval_options =
  opt_limit :: "int option"
  opt_scoreThreshold :: "'s option"
  opt_filter :: "jsobj option"

record 'v document =
  doc_id :: point_id
  doc_content :: "jsval option"
  doc_metadata :: "jsobj option"
  doc_vector :: "'v option"

section \<open>The collaborators\<close>

text \<open>
  The vector store client is external: each of its operations is a parameter, a function
  of the request and of the backend state \<open>'b\<close>. A call either throws (\<open>Inl\<close>, or
  \<open>Some\<close> for \<open>upsert\<close>) or returns. The embeddings module and \<^verbatim>\<open>uuidv4\<close> are
  parameters as well: \<open>uuidv4 n\<close> is the id that the \<open>n\<close>-th draw returns.
\<close>

record ('b, 'v, 's) qdrant_client =
  upsert :: "string \<Rightarrow> 'v upsert_request \<Rightarrow> 'b \<Rightarrow> thrown option \<times> 'b"
  search :: "string \<Rightarrow> ('v, 's) search_request \<Rightarrow> 'b \<Rightarrow> thrown + 's scored_point list"
  scroll :: "string \<Rightarrow> scroll_request \<Rightarrow> 'b \<Rightarrow> thrown + 'v scroll_response"
  deleteCollection :: "string \<Rightarrow> 'b \<Rightarrow> (thrown + bool) \<times> 'b"

datatype ('v, 's) store_call =
    Upsert string "'v upsert_request"
  | Search string "('v, 's) search_request"
  | Scroll string scroll_request
  | DeleteCollection string

record ('b, 'v, 's) provider =
  collectionName :: string
  client :: "('b, 'v, 's) qdrant_client"
  embed :: "string list \<Rightarrow> thrown + 'v option list"
  uuidv4 :: "nat \<Rightarrow> string"
  json_stringify :: "thrown \<Rightarrow> thrown + string"

text \<open>
  What changes while the provider runs: the backend, the calls issued to the client so
  far (in order), and the number of ids drawn from \<^verbatim>\<open>uuidv4\<close>. Logging is left out, as
  it changes neither a result nor a call, with one exception: the log line in the
  \<^verbatim>\<open>catch\<close> block of the upsert serialises the thrown value with
  \<^verbatim>\<open>JSON.stringify(error, null, 2)\<close>, which itself throws a \<^verbatim>\<open>TypeError\<close> on a value
  that holds a cycle or a \<^verbatim>\<open>BigInt\<close>. What a thrown value holds besides its message is
  not modelled, so this is a parameter too: \<open>json_stringify\<close> throws (\<open>Inl\<close>) or
  returns the text.
\<close>

record ('b, 'v, 's) world =
  backend :: 'b
  calls :: "('v, 's) store_call list"
  uuid_drawn :: nat

section \<open>QdrantProvider\<close>

subsection \<open>addDocument\<close>

text \<open>
  Step 3 of \<^verbatim>\<open>addDocument\<close>, the \<^verbatim>\<open>for\<close> loop over the chunk indices. The loop state
  is \<open>(points, addedChunkIds, drawn)\<close>.
\<close>

function createPoints ::
  "(nat \<Rightarrow> string) \<Rightarrow> jsobj \<Rightarrow> string list \<Rightarrow> 'v option list \<Rightarrow> nat \<Rightarrow>
   'v point_struct list \<times> string list \<times> nat \<Rightarrow> 'v point_struct list \<times> string list \<times> nat" where
  "createPoints gen metadata chunks embeddings i (points, addedChunkIds, drawn) =
     (if i < length chunks then
        (case array_get embeddings i of
           None \<Rightarrow> createPoints gen metadata chunks embeddings (i + 1) (points, addedChunkIds, drawn)
         | Some embedding \<Rightarrow>
             (let chunkId = gen drawn in
              createPoints gen metadata chunks embeddings (i + 1)
                (points @ [\<lparr>ps_id = chunkId, ps_vector = embedding,
                            ps_payload = AList.update ''chunkIndex'' (JNum (int i))
                                           (AList.update ''content'' (JStr (chunks ! i)) metadata)\<rparr>],
                 addedChunkIds @ [chunkId],
                 drawn + 1)))
      else (points, addedChunkIds, drawn))"
  by pat_completeness auto
termination
  by (relation "measure (\<lambda>(gen, metadata, chunks, embeddings, i, st). length chunks - i)") auto

declare createPoints.simps [simp del]

definition upsert_catch :: "('b, 'v, 's) provider \<Rightarrow> thrown \<Rightarrow> thrown" where
  \<comment> \<open>what the \<^verbatim>\<open>catch\<close> block of step 4 throws: the serialisation for the log line
      comes first and may throw, then the wrapped error is thrown\<close>
  "upsert_catch p error =
     (case json_stringify p error of
        Inl typeError \<Rightarrow> typeError
      | Inr s \<Rightarrow> JsError (''Qdrant upsert failed: '' @ error_text error))"

text \<open>Everything \<^verbatim>\<open>addDocument\<close> does once the chunks are there (steps 1b to 4).\<close>

definition addDocument_chunks ::
  "('b, 'v, 's) provider \<Rightarrow> string list \<Rightarrow> jsobj \<Rightarrow> ('b, 'v, 's) world \<Rightarrow>
   (thrown + string list) \<times> ('b, 'v, 's) world" where
  "addDocument_chunks p chunks metadata w =
     (if length chunks = 0 then (Inr [], w)
      else
        (case embed p chunks of
           Inl e \<Rightarrow> (Inl e, w)
         | Inr embeddings \<Rightarrow>
             (case createPoints (uuidv4 p) metadata chunks embeddings 0 ([], [], uuid_drawn w) of
                (points, addedChunkIds, drawn) \<Rightarrow>
                  (let w1 = w\<lparr>uuid_drawn := drawn\<rparr> in
                   if length points = 0 then (Inr [], w1)
                   else
                     (let req = \<lparr>up_wait = True, up_points = points\<rparr> in
                      case upsert (client p) (collectionName p) req (backend w1) of
                        (res, b) \<Rightarrow>
                          (let w2 = w1\<lparr>backend := b,
                                       calls := calls w1 @ [Upsert (collectionName p) req]\<rparr> in
                           case res of
                             None \<Rightarrow> (Inr addedChunkIds, w2)
                           | Some error \<Rightarrow> (Inl (upsert_catch p error), w2)))))))"

definition addDocument ::
  "('b, 'v, 's) provider \<Rightarrow> string \<Rightarrow> jsobj option \<Rightarrow> ('b, 'v, 's) world \<Rightarrow>
   ((thrown + string list) \<times> ('b, 'v, 's) world) option" where
  \<comment> \<open>\<open>None\<close>: the chunker does not return. The parameter default is \<^verbatim>\<open>metadata = {}\<close>.\<close>
  "addDocument p content metadata w =
     (case simpleChunker content defaultChunkSize defaultOverlap of
        None \<Rightarrow> None
      | Some chunks \<Rightarrow> Some (addDocument_chunks p chunks (obj_spread metadata) w))"

subsection \<open>retrieveContext\<close>

definition toRetrievedChunk :: "'s scored_point \<Rightarrow> 's retrieved_chunk" where
  \<comment> \<open>the callback of \<^verbatim>\<open>searchResult.map\<close>; \<^verbatim>\<open>??\<close> replaces \<^verbatim>\<open>undefined\<close> and \<^verbatim>\<open>null\<close>\<close>
  "toRetrievedChunk point =
     (let payload = sp_payload point;
          content = (case (case payload of None \<Rightarrow> None | Some obj \<Rightarrow> map_of obj ''content'') of
                       None \<Rightarrow> JStr ''''
                     | Some JNull \<Rightarrow> JStr ''''
                     | Some v \<Rightarrow> v);
          metadata = AList.delete ''content'' (obj_spread payload)
      in \<lparr>rc_content = content,
          rc_score = sp_score point,
          rc_metadata = (if length (obj_keys metadata) > 0 then Some metadata else None)\<rparr>)"

definition searchRequest :: "'v \<Rightarrow> 's retrieval_options \<Rightarrow> ('v, 's) search_request" where
  \<comment> \<open>the argument of \<^verbatim>\<open>client.search\<close>. It has no filter field: the line that would
      set it is commented out in the source.\<close>
  "searchRequest queryVector options =
     \<lparr>sq_vector = queryVector,
      sq_limit = (case opt_limit options of None \<Rightarrow> 5 | Some l \<Rightarrow> l),
      sq_score_threshold = opt_scoreThreshold options,
      sq_with_payload = True,
      sq_with_vector = False\<rparr>"

definition retrieveContext ::
  "('b, 'v, 's) provider \<Rightarrow> string \<Rightarrow> 's retrieval_options option \<Rightarrow> ('b, 'v, 's) world \<Rightarrow>
   (thrown + 's retrieved_chunk list) \<times> ('b, 'v, 's) world" where
  \<comment> \<open>The parameter default is \<^verbatim>\<open>options = {}\<close>; \<^verbatim>\<open>embed\<close> gets the one query text.\<close>
  "retrieveContext p queryText options w =
     (let options = (case options of
                       None \<Rightarrow> \<lparr>opt_limit = None, opt_scoreThreshold = None, opt_filter = None\<rparr>
                     | Some opts \<Rightarrow> opts) in
      case embed p [queryText] of
        Inl e \<Rightarrow> (Inl e, w)
      | Inr vectors \<Rightarrow>
          (case array_get vectors 0 of
             None \<Rightarrow> (Inl (JsError ''Failed to generate embedding for the query text.''), w)
           | Some queryVector \<Rightarrow>
               (let req = searchRequest queryVector options;
                    w' = w\<lparr>calls := calls w @ [Search (collectionName p) req]\<rparr>
                in case search (client p) (collectionName p) req (backend w) of
                     Inl error \<Rightarrow>
                       (Inl (JsError (''Qdrant search failed: '' @ error_text error)), w')
                   | Inr searchResult \<Rightarrow> (Inr (map toRetrievedChunk searchResult), w'))))"

subsection \<open>getDocumentsByMetadata\<close>

definition scrollRequest :: "jsobj \<Rightarrow> point_id option \<Rightarrow> scroll_request" where
  \<comment> \<open>the argument of \<^verbatim>\<open>client.scroll\<close>, where \<open>filt\<close> is the source's \<^verbatim>\<open>filter\<close>;
      \<^verbatim>\<open>Object.entries\<close> of an object is the list that stands for it\<close>
  "scrollRequest filt nextPageOffset =
     \<lparr>sr_filter_must = map (\<lambda>(key, value). \<lparr>cond_key = key, cond_match_value = value\<rparr>) filt,
      sr_limit = 250,
      sr_offset = nextPageOffset,
      sr_with_payload = True,
      sr_with_vector = True\<rparr>"

text \<open>
  The \<^verbatim>\<open>do ... while (nextPageOffset)\<close> loop. Whether it ends depends on the backend, so
  it is a partial function: \<open>None\<close> stands for a scan that never ends.
\<close>

partial_function (option) scroll_loop ::
  "('b, 'v, 's) provider \<Rightarrow> jsobj \<Rightarrow> point_id option \<Rightarrow> 'v qrecord list \<Rightarrow> ('b, 'v, 's) world \<Rightarrow>
   ((thrown + 'v qrecord list) \<times> ('b, 'v, 's) world) option" where
  "scroll_loop p filt nextPageOffset allPoints w =
     (let req = scrollRequest filt nextPageOffset;
          w' = w\<lparr>calls := calls w @ [Scroll (collectionName p) req]\<rparr>
      in case scroll (client p) (collectionName p) req (backend w) of
           Inl error \<Rightarrow> Some (Inl error, w')
         | Inr response \<Rightarrow>
             (let allPoints' = (if length (resp_points response) > 0
                                then allPoints @ resp_points response else allPoints);
                  nextPageOffset' = resp_next_page_offset response
              in if truthy nextPageOffset'
                 then scroll_loop p filt nextPageOffset' allPoints' w'
                 else Some (Inr allPoints', w')))"

declare scroll_loop.simps [code]

definition toDocument :: "'v qrecord \<Rightarrow> 'v document" where
  "toDocument point =
     \<lparr>doc_id = rec_id point,
      doc_content = (case rec_payload point of None \<Rightarrow> None | Some obj \<Rightarrow> map_of obj ''content''),
      doc_metadata = rec_payload point,
      doc_vector = rec_vector point\<rparr>"

definition getDocumentsByMetadata ::
  "('b, 'v, 's) provider \<Rightarrow> jsobj \<Rightarrow> ('b, 'v, 's) world \<Rightarrow>
   ((thrown + 'v document list) \<times> ('b, 'v, 's) world) option" where
  "getDocumentsByMetadata p filt w =
     (case scroll_loop p filt None [] w of
        None \<Rightarrow> None
      | Some (Inl error, w') \<Rightarrow>
          Some (Inl (JsError (''Qdrant scroll failed: '' @ error_text error)), w')
      | Some (Inr allPoints, w') \<Rightarrow> Some (Inr (map toDocument allPoints), w'))"

subsection \<open>deleteStorage\<close>

definition lower :: "char \<Rightarrow> char" where
  \<comment> \<open>case folding of the \<^verbatim>\<open>i\<close> flag, on the letters the pattern has (ASCII)\<close>
  "lower c = (let n = (of_char c :: nat) in if 65 \<le> n \<and> n \<le> 90 then char_of (n + 32) else c)"

definition matches_at :: "string \<Rightarrow> string \<Rightarrow> bool" where
  "matches_at pat s = (length pat \<le> length s \<and> map lower (take (length pat) s) = map lower pat)"

fun regex_test :: "string \<Rightarrow> string \<Rightarrow> bool" where
  \<comment> \<open>\<^verbatim>\<open>/pat/i.test(s)\<close> for a pattern of literal characters: a match at some position\<close>
  "regex_test pat [] = matches_at pat []"
| "regex_test pat (c # cs) = (matches_at pat (c # cs) \<or> regex_test pat cs)"

fun is_not_found :: "thrown \<Rightarrow> bool" where
  \<comment> \<open>\<^verbatim>\<open>error instanceof Error && /not found/i.test(error.message)\<close>\<close>
  "is_not_found (JsError message) = regex_test ''not found'' message"
| "is_not_found (JsThrown s) = False"

definition deleteStorage ::
  "('b, 'v, 's) provider \<Rightarrow> ('b, 'v, 's) world \<Rightarrow> (thrown + unit) \<times> ('b, 'v, 's) world" where
  "deleteStorage p w =
     (case deleteCollection (client p) (collectionName p) (backend w) of
        (res, b) \<Rightarrow>
          (let w' = w\<lparr>backend := b, calls := calls w @ [DeleteCollection (collectionName p)]\<rparr> in
           case res of
             Inr result \<Rightarrow> (if result then (Inr (), w') else (Inr (), w'))
           | Inl error \<Rightarrow>
               if is_not_found error then (Inr (), w')
               else (Inl (JsError (''Qdrant collection deletion failed: '' @ error_text error)), w')))"

section \<open>RAGModule, the facade\<close>

text \<open>
  The operations that \<^verbatim>\<open>RAGModuleInterface\<close> and \<^verbatim>\<open>RAGProviderInterface\<close> declare
  (\<^verbatim>\<open>initialize\<close> apart), and for each class the ones it defines as methods.
\<close>

datatype rag_operation =
    AddDocument
  | RetrieveContext
  | DeleteDocumentsByIds
  | DeleteDocumentsByMetadata
  | GetDocumentsByMetadata
  | DeleteStorage

definition RAGModuleInterface_methods :: "rag_operation list" where
  "RAGModuleInterface_methods =
     [AddDocument, RetrieveContext, DeleteDocumentsByIds, DeleteDocumentsByMetadata,
      GetDocumentsByMetadata, DeleteStorage]"

definition QdrantProvider_methods :: "rag_operation list" where
  "QdrantProvider_methods =
     [AddDocument, RetrieveContext, GetDocumentsByMetadata, DeleteDocumentsByIds,
      DeleteDocumentsByMetadata, DeleteStorage]"

definition RAGModule_methods :: "rag_operation list" where
  "RAGModule_methods =
     [AddDocument, RetrieveContext, DeleteDocumentsByIds, DeleteDocumentsByMetadata, DeleteStorage]"

record 's rag_config =
  defaultRetrievalLimit :: "int option"
  defaultScoreThreshold :: "'s option"

record ('b, 'v, 's) rag_module =
  rm_config :: "'s rag_config"
  rm_ragProvider :: "('b, 'v, 's) provider"
  rm_isInitialized :: bool

definition ensureInitialized :: "('b, 'v, 's) rag_module \<Rightarrow> thrown option" where
  "ensureInitialized m =
     (if \<not> rm_isInitialized m
      then Some (JsError ''RAGModule has not been initialized. Call RAGModule.create() first.'')
      else None)"

definition RAGModule_addDocument ::
  "('b, 'v, 's) rag_module \<Rightarrow> string \<Rightarrow> jsobj option \<Rightarrow> ('b, 'v, 's) world \<Rightarrow>
   ((thrown + string list) \<times> ('b, 'v, 's) world) option" where
  "RAGModule_addDocument m content metadata w =
     (case ensureInitialized m of
        Some e \<Rightarrow> Some (Inl e, w)
      | None \<Rightarrow> addDocument (rm_ragProvider m) content metadata w)"

definition RAGModule_retrieveContext ::
  "('b, 'v, 's) rag_module \<Rightarrow> string \<Rightarrow> 's retrieval_options option \<Rightarrow> ('b, 'v, 's) world \<Rightarrow>
   (thrown + 's retrieved_chunk list) \<times> ('b, 'v, 's) world" where
  "RAGModule_retrieveContext m queryText options w =
     (case ensureInitialized m of
        Some e \<Rightarrow> (Inl e, w)
      | None \<Rightarrow>
          (let finalOptions =
                 \<lparr>opt_limit = (case (case options of None \<Rightarrow> None | Some opts \<Rightarrow> opt_limit opts) of
                                 None \<Rightarrow> defaultRetrievalLimit (rm_config m)
                               | Some l \<Rightarrow> Some l),
                  opt_scoreThreshold =
                    (case (case options of None \<Rightarrow> None | Some opts \<Rightarrow> opt_scoreThreshold opts) of
                       None \<Rightarrow> defaultScoreThreshold (rm_config m)
                     | Some t \<Rightarrow> Some t),
                  opt_filter = (case options of None \<Rightarrow> None | Some opts \<Rightarrow> opt_filter opts)\<rparr>
           in retrieveContext (rm_ragProvider m) queryText (Some finalOptions) w))"

definition RAGModule_deleteStorage ::
  "('b, 'v, 's) rag_module \<Rightarrow> ('b, 'v, 's) world \<Rightarrow> (thrown + unit) \<times> ('b, 'v, 's) world" where
  "RAGModule_deleteStorage m w =
     (case ensureInitialized m of
        Some e \<Rightarrow> (Inl e, w)
      | None \<Rightarrow> deleteStorage (rm_ragProvider m) w)"

section \<open>Auxiliary definitions for the statements\<close>

definition present_indices :: "'v option list \<Rightarrow> nat \<Rightarrow> nat list" where
  \<comment> \<open>the indices below \<open>n\<close> at which the embedding result holds a vector, ascending\<close>
  "present_indices embeddings n = filter (\<lambda>i. array_get embeddings i \<noteq> None) [0..<n]"

definition expected_point ::
  "(nat \<Rightarrow> string) \<Rightarrow> jsobj \<Rightarrow> string list \<Rightarrow> 'v option list \<Rightarrow> nat \<times> nat \<Rightarrow> 'v point_struct" where
  \<comment> \<open>the point of chunk \<open>i\<close> when its id is draw number \<open>k\<close>\<close>
  "expected_point gen metadata chunks embeddings =
     (\<lambda>(k, i). \<lparr>ps_id = gen k,
                ps_vector = the (array_get embeddings i),
                ps_payload = AList.update ''chunkIndex'' (JNum (int i))
                               (AList.update ''content'' (JStr (chunks ! i)) metadata)\<rparr>)"

definition payload_fields :: "'s scored_point \<Rightarrow> string \<rightharpoonup> jsval" where
  \<comment> \<open>the fields of a hit's payload; a hit without payload has none\<close>
  "payload_fields hit = (case sp_payload hit of None \<Rightarrow> Map.empty | Some obj \<Rightarrow> map_of obj)"

definition mentions_ci :: "string \<Rightarrow> string \<Rightarrow> bool" where
  \<comment> \<open>\<open>s\<close> contains \<open>pat\<close> somewhere, letter case ignored\<close>
  "mentions_ci pat s = (\<exists>pre mid post. s = pre @ mid @ post \<and> map lower mid = map lower pat)"

fun page_chain ::
  "('b, 'v, 's) provider \<Rightarrow> jsobj \<Rightarrow> 'b \<Rightarrow> point_id option \<Rightarrow> 'v scroll_response list \<Rightarrow> bool" where
  \<comment> \<open>\<open>rs\<close> are the pages the backend serves from cursor \<open>off\<close> on, each asked for with
      the cursor of the one before; the last one, and only the last, has a falsy cursor\<close>
  "page_chain p filt b off [] = False"
| "page_chain p filt b off (r # rs) =
     (scroll (client p) (collectionName p) (scrollRequest filt off) b = Inr r
      \<and> (if rs = [] then \<not> truthy (resp_next_page_offset r)
         else truthy (resp_next_page_offset r)
              \<and> page_chain p filt b (resp_next_page_offset r) rs))"

section \<open>A small environment to run the model on\<close>

text \<open>
  A backend that knows a list of collection names, accepts every upsert, answers every
  search with two hits and reports a missing collection by throwing. The embeddings
  module fails on the empty string only.
\<close>

definition demo_client :: "(string list, int list, int) qdrant_client" where
  "demo_client =
     \<lparr>upsert = (\<lambda>name req b. (None, b)),
      search = (\<lambda>name req b.
                  Inr [\<lparr>sp_score = 9,
                        sp_payload = Some [(''content'', JStr ''UBC''), (''source'', JStr ''a.txt'')]\<rparr>,
                       \<lparr>sp_score = 7, sp_payload = None\<rparr>]),
      scroll = (\<lambda>name req b. Inr \<lparr>resp_points = [], resp_next_page_offset = None\<rparr>),
      deleteCollection = (\<lambda>name b. if name \<in> set b then (Inr True, removeAll name b)
                                    else (Inl (JsError ''Not Found''), b))\<rparr>"

definition demo_provider :: "(string list, int list, int) provider" where
  "demo_provider =
     \<lparr>collectionName = ''docs'',
      client = demo_client,
      embed = (\<lambda>texts. Inr (map (\<lambda>t. if t = [] then None else Some [int (length t)]) texts)),
      uuidv4 = (\<lambda>n. replicate (Suc n) (CHR ''u'')),
      json_stringify = (\<lambda>error. Inr (error_text error))\<rparr>"

definition demo_world :: "(string list, int list, int) world" where
  "demo_world = \<lparr>backend = [''docs''], calls = [], uuid_drawn = 0\<rparr>"

text \<open>
  The same provider with an embeddings module that fails on every text shorter than 300
  characters.
\<close>

definition picky_provider :: "(string list, int list, int) provider" where
  "picky_provider =
     demo_provider\<lparr>embed :=
       (\<lambda>texts. Inr (map (\<lambda>t. if length t < 300 then None else Some [int (length t)]) texts))\<rparr>"

text \<open>
  A backend that serves its points in two pages: the cursor that comes with the first
  page is the id of the first point of the second.
\<close>

definition page_one :: "int list scroll_response" where
  "page_one = \<lparr>resp_points = [\<lparr>rec_id = IdNum 1, rec_payload = None, rec_vector = Some [1]\<rparr>],
               resp_next_page_offset = Some (IdNum 2)\<rparr>"

definition page_two :: "int list scroll_response" where
  "page_two = \<lparr>resp_points = [\<lparr>rec_id = IdNum 2, rec_payload = None, rec_vector = Some [2]\<rparr>],
               resp_next_page_offset = None\<rparr>"

definition paged_provider :: "(string list, int list, int) provider" where
  "paged_provider =
     demo_provider\<lparr>client := demo_client\<lparr>scroll :=
       (\<lambda>name req b. if sr_offset req = None then Inr page_one else Inr page_two)\<rparr>\<rparr>"

text \<open>A backend that cannot be reached: dropping the collection throws a connection error.\<close>

definition unreachable_provider :: "(string list, int list, int) provider" where
  "unreachable_provider =
     demo_provider\<lparr>client := demo_client\<lparr>deleteCollection :=
       (\<lambda>name b. (Inl (JsError ''connect ECONNREFUSED''), b))\<rparr>\<rparr>"

section \<open>The default chunker: termination, windows, single chunk\<close>

lemma chunk_loop_windows:
  assumes "overlap < chunkSize"
  shows "\<exists>n. chunk_loop text chunkSize overlap i acc =
               Some (acc @ map (\<lambda>k. window text chunkSize (i + int k * (chunkSize - overlap))) [0..<n])
           \<and> (i < int (length text) \<longrightarrow> 0 < n)
           \<and> (\<forall>k<n. i + int k * (chunkSize - overlap) < int (length text))"
proof (induction "nat (int (length text) - i)" arbitrary: i acc rule: less_induct)
  case less
  let ?len = "int (length text)"
  let ?step = "chunkSize - overlap"
  show ?case
  proof (cases "i < ?len")
    case False
    then have "chunk_loop text chunkSize overlap i acc = Some acc"
      by (subst chunk_loop.simps) simp
    with False show ?thesis by (intro exI[of _ 0]) simp
  next
    case True
    show ?thesis
    proof (cases "min (i + chunkSize) ?len = ?len")
      case atEnd: True
      with True have "chunk_loop text chunkSize overlap i acc = Some (acc @ [window text chunkSize i])"
        by (subst chunk_loop.simps) (simp add: window_def Let_def)
      with True show ?thesis by (intro exI[of _ 1]) simp
    next
      case notEnd: False
      let ?i' = "i + ?step"
      let ?acc' = "acc @ [window text chunkSize i]"
      from notEnd have short: "i + chunkSize < ?len" by linarith
      with True have unfold: "chunk_loop text chunkSize overlap i acc =
          chunk_loop text chunkSize overlap ?i' ?acc'"
        by (subst chunk_loop.simps) (simp add: window_def Let_def)
      from assms True have "nat (?len - ?i') < nat (?len - i)" by simp
      from less[OF this, of ?acc'] obtain n where
        n: "chunk_loop text chunkSize overlap ?i' ?acc' =
              Some (?acc' @ map (\<lambda>k. window text chunkSize (?i' + int k * ?step)) [0..<n])"
        and bound: "\<forall>k<n. ?i' + int k * ?step < ?len"
        by blast
      have shift: "map (\<lambda>k. window text chunkSize (i + int k * ?step)) [0..<Suc n] =
             window text chunkSize i # map (\<lambda>k. window text chunkSize (?i' + int k * ?step)) [0..<n]"
        by (simp add: map_upt_Suc algebra_simps del: upt_Suc)
      have "chunk_loop text chunkSize overlap i acc =
             Some (acc @ map (\<lambda>k. window text chunkSize (i + int k * ?step)) [0..<Suc n])"
        unfolding unfold n shift by simp
      moreover have "\<forall>k<Suc n. i + int k * ?step < ?len"
      proof (intro allI impI)
        fix k assume "k < Suc n"
        show "i + int k * ?step < ?len"
        proof (cases k)
          case 0 with True show ?thesis by simp
        next
          case (Suc j)
          with \<open>k < Suc n\<close> bound have "?i' + int j * ?step < ?len" by simp
          with Suc show ?thesis by (simp add: algebra_simps)
        qed
      qed
      ultimately show ?thesis by (intro exI[of _ "Suc n"]) simp
    qed
  qed
qed


lemma substring_whole: "int (length text) \<le> chunkSize \<Longrightarrow>
    substring text 0 (min (0 + chunkSize) (int (length text))) = text"
  by (simp add: substring_def Let_def min_def max_def)

lemma substring_nonempty:
  assumes "0 \<le> s" "s < int (length text)" "0 < chunkSize"
  shows "substring text s (min (s + chunkSize) (int (length text))) \<noteq> []"
  using assms by (auto simp: substring_def Let_def min_def max_def)

lemma simpleChunker_trace_windows:
  assumes "text \<noteq> []" "overlap < chunkSize"
  shows "\<exists>n. 0 < n \<and> simpleChunker_trace text chunkSize overlap =
               Some (map (\<lambda>k. window text chunkSize (int k * (chunkSize - overlap))) [0..<n])
           \<and> (\<forall>k<n. int k * (chunkSize - overlap) < int (length text))"
proof (cases "int (length text) \<le> chunkSize")
  case True
  then have "simpleChunker_trace text chunkSize overlap = Some [window text chunkSize 0]"
    using substring_whole[OF True] by (simp add: simpleChunker_trace_def window_def)
  with assms show ?thesis by (intro exI[of _ 1]) simp
next
  case False
  from chunk_loop_windows[OF assms(2), of "text" 0 "[]"] assms(1) False
  show ?thesis by (auto simp: simpleChunker_trace_def)
qed

text \<open>
  Claim C7. For every non-empty text and every overlap strictly less than the chunk size
  (whatever their signs), the chunker returns: the loop ends. It returns at least one
  chunk. Every chunk is the window of \<open>chunkSize\<close> characters cut at its start offset
  (clipped at the end of the text), and from one chunk to the next the start offset grows
  by exactly \<open>chunkSize - overlap\<close>, so the offsets are strictly increasing.
\<close>

theorem simpleChunker_terminates_starts_advance:
  assumes "text \<noteq> []" and "overlap < chunkSize"
  shows "\<exists>tr. simpleChunker_trace text chunkSize overlap = Some tr
           \<and> simpleChunker text chunkSize overlap = Some (map snd tr)
           \<and> 1 \<le> length tr
           \<and> (\<forall>k < length tr. snd (tr ! k) =
                 substring text (fst (tr ! k)) (min (fst (tr ! k) + chunkSize) (int (length text))))
           \<and> (\<forall>k. Suc k < length tr \<longrightarrow>
                 fst (tr ! k) < fst (tr ! Suc k)
                 \<and> fst (tr ! Suc k) = fst (tr ! k) + (chunkSize - overlap))"
proof -
  from simpleChunker_trace_windows[OF assms] obtain n where n: "0 < n"
    and tr: "simpleChunker_trace text chunkSize overlap =
               Some (map (\<lambda>k. window text chunkSize (int k * (chunkSize - overlap))) [0..<n])"
    by blast
  let ?tr = "map (\<lambda>k. window text chunkSize (int k * (chunkSize - overlap))) [0..<n]"
  have "simpleChunker text chunkSize overlap = Some (map snd ?tr)"
    by (simp add: simpleChunker_def tr)
  moreover from n have "1 \<le> length ?tr" by simp
  moreover have "\<forall>k < length ?tr. snd (?tr ! k) =
        substring text (fst (?tr ! k)) (min (fst (?tr ! k) + chunkSize) (int (length text)))"
    by (simp add: window_def)
  moreover have "\<forall>k. Suc k < length ?tr \<longrightarrow> fst (?tr ! k) < fst (?tr ! Suc k)
        \<and> fst (?tr ! Suc k) = fst (?tr ! k) + (chunkSize - overlap)"
    using assms(2) by (simp add: window_def algebra_simps)
  ultimately show ?thesis using tr by blast
qed

theorem simpleChunker_terminates_starts_advance_witness:
  "''abcdefghij'' \<noteq> [] \<and> (1::int) < 4
   \<and> simpleChunker ''abcdefghij'' 4 1 = Some [''abcd'', ''defg'', ''ghij'']
   \<and> map fst (the (simpleChunker_trace ''abcdefghij'' 4 1)) = [0, 3, 6]"
proof -
  have tr: "simpleChunker_trace ''abcdefghij'' 4 1 = Some [(0, ''abcd''), (3, ''defg''), (6, ''ghij'')]"
    by code_simp
  from simpleChunker_terminates_starts_advance[of "''abcdefghij''" 1 4]
  obtain tr' where "simpleChunker_trace ''abcdefghij'' 4 1 = Some tr'"
    and "simpleChunker ''abcdefghij'' 4 1 = Some (map snd tr')"
    by auto
  with tr show ?thesis by simp
qed

text \<open>
  Claim C8. A text that is not longer than the chunk size comes back as exactly one
  chunk, the text itself; the overlap plays no part.
\<close>

theorem simpleChunker_short_text_single_chunk:
  "int (length text) \<le> chunkSize \<Longrightarrow> simpleChunker text chunkSize overlap = Some [text]"
  by (simp add: simpleChunker_def simpleChunker_trace_def)

theorem simpleChunker_short_text_single_chunk_witness:
  "int (length ''UBC'') \<le> defaultChunkSize
   \<and> simpleChunker ''UBC'' defaultChunkSize defaultOverlap = Some [''UBC'']"
  using simpleChunker_short_text_single_chunk[of "''UBC''" defaultChunkSize defaultOverlap]
  by (simp add: defaultChunkSize_def)

text \<open>
  The empty text is not longer than the chunk size, so with the default sizes the chunker
  returns it as its one chunk: a chunk that is the empty string.
\<close>

theorem simpleChunker_empty_text_counterexample:
  "simpleChunker [] defaultChunkSize defaultOverlap = Some [[]]
   \<and> [] \<in> set (the (simpleChunker [] defaultChunkSize defaultOverlap))"
  by (simp add: simpleChunker_def simpleChunker_trace_def defaultChunkSize_def)

text \<open>
  Claim C9, amended. For every non-empty text, every positive chunk size and every
  overlap below it (the defaults 300 and 50 are such), the chunker returns and every chunk
  of the result is a non-empty string. The empty text is the one input with an empty chunk.
\<close>

theorem simpleChunker_chunks_nonempty:
  assumes "text \<noteq> []" and "0 < chunkSize" and "overlap < chunkSize"
  shows "\<exists>chunks. simpleChunker text chunkSize overlap = Some chunks
           \<and> (\<forall>c \<in> set chunks. c \<noteq> [])"
proof -
  from simpleChunker_trace_windows[OF assms(1,3)] obtain n where
    tr: "simpleChunker_trace text chunkSize overlap =
               Some (map (\<lambda>k. window text chunkSize (int k * (chunkSize - overlap))) [0..<n])"
    and bound: "\<forall>k<n. int k * (chunkSize - overlap) < int (length text)"
    by blast
  let ?chunks = "map (\<lambda>k. snd (window text chunkSize (int k * (chunkSize - overlap)))) [0..<n]"
  have "simpleChunker text chunkSize overlap = Some ?chunks"
    by (simp add: simpleChunker_def tr comp_def)
  moreover have "\<forall>c \<in> set ?chunks. c \<noteq> []"
  proof
    fix c assume "c \<in> set ?chunks"
    then obtain k where k: "k < n" and c: "c = snd (window text chunkSize (int k * (chunkSize - overlap)))"
      by auto
    from assms(3) have "0 \<le> int k * (chunkSize - overlap)" by simp
    moreover from bound k have "int k * (chunkSize - overlap) < int (length text)" by simp
    ultimately show "c \<noteq> []"
      using substring_nonempty[OF _ _ assms(2)] c by (simp add: window_def)
  qed
  ultimately show ?thesis by blast
qed

theorem simpleChunker_chunks_nonempty_witness:
  "''UBC'' \<noteq> [] \<and> 0 < defaultChunkSize \<and> defaultOverlap < defaultChunkSize
   \<and> (\<exists>chunks. simpleChunker ''UBC'' defaultChunkSize defaultOverlap = Some chunks
        \<and> list_all (\<lambda>c. c \<noteq> []) chunks)
   \<and> ''abcdefghij'' \<noteq> [] \<and> (0::int) < 4 \<and> (1::int) < 4
   \<and> (\<exists>chunks. simpleChunker ''abcdefghij'' 4 1 = Some chunks
        \<and> list_all (\<lambda>c. c \<noteq> []) chunks)"
  using simpleChunker_chunks_nonempty[of "''UBC''" defaultChunkSize defaultOverlap]
        simpleChunker_chunks_nonempty[of "''abcdefghij''" 4 1]
  by (simp add: defaultChunkSize_def defaultOverlap_def list_all_iff)

section \<open>addDocument: points, ids and the empty point set\<close>

lemma createPoints_from:
  "createPoints gen metadata chunks embeddings i (points, ids, drawn) =
     (let new = map (expected_point gen metadata chunks embeddings)
                  (enumerate drawn (filter (\<lambda>j. array_get embeddings j \<noteq> None) [i..<length chunks]))
      in (points @ new, ids @ map ps_id new, drawn + length new))"
proof (induction "length chunks - i" arbitrary: i points ids drawn)
  case 0
  then show ?case by (subst createPoints.simps) simp
next
  case (Suc n)
  then have less: "i < length chunks" and n: "n = length chunks - Suc i" by simp_all
  then have upt: "[i..<length chunks] = i # [Suc i..<length chunks]"
    by (simp add: upt_conv_Cons)
  show ?case
  proof (cases "array_get embeddings i")
    case None
    with less Suc.hyps(1)[OF n] show ?thesis
      by (subst createPoints.simps) (simp add: upt)
  next
    case (Some v)
    with less Suc.hyps(1)[OF n] show ?thesis
      by (subst createPoints.simps) (simp add: upt Let_def expected_point_def)
  qed
qed


lemma enumerate_eq_Nil: "enumerate n xs = [] \<longleftrightarrow> xs = []"
  by (cases xs) simp_all

lemma addDocument_chunks_unfold:
  assumes "embed p chunks = Inr embeddings"
  shows "addDocument_chunks p chunks metadata w =
     (let points = map (expected_point (uuidv4 p) metadata chunks embeddings)
                     (enumerate (uuid_drawn w) (present_indices embeddings (length chunks)));
          w1 = w\<lparr>uuid_drawn := uuid_drawn w + length points\<rparr>;
          req = \<lparr>up_wait = True, up_points = points\<rparr>;
          w2 = w1\<lparr>backend := snd (upsert (client p) (collectionName p) req (backend w)),
                   calls := calls w @ [Upsert (collectionName p) req]\<rparr>
      in if points = [] then (Inr [], w1)
         else (case fst (upsert (client p) (collectionName p) req (backend w)) of
                 None \<Rightarrow> (Inr (map ps_id points), w2)
               | Some error \<Rightarrow> (Inl (upsert_catch p error), w2)))"
proof (cases "chunks = []")
  case True
  then show ?thesis by (simp add: addDocument_chunks_def present_indices_def)
next
  case False
  then show ?thesis
    using assms
    by (auto simp: addDocument_chunks_def createPoints_from present_indices_def Let_def
                   enumerate_eq_Nil
             split: prod.splits option.splits)
qed

lemma expected_point_nth:
  assumes "k < length (present_indices embeddings n)"
  shows "ps_id (map (expected_point gen metadata chunks embeddings)
                  (enumerate d (present_indices embeddings n)) ! k) = gen (d + k)"
    and "array_get embeddings (present_indices embeddings n ! k) =
           Some (ps_vector (map (expected_point gen metadata chunks embeddings)
                              (enumerate d (present_indices embeddings n)) ! k))"
    and "map_of (ps_payload (map (expected_point gen metadata chunks embeddings)
                  (enumerate d (present_indices embeddings n)) ! k)) =
           (map_of metadata)(''content'' \<mapsto> JStr (chunks ! (present_indices embeddings n ! k)),
                             ''chunkIndex'' \<mapsto> JNum (int (present_indices embeddings n ! k)))"
proof -
  let ?pis = "present_indices embeddings n"
  from assms have nth: "map (expected_point gen metadata chunks embeddings) (enumerate d ?pis) ! k =
      expected_point gen metadata chunks embeddings (d + k, ?pis ! k)"
    by (simp add: nth_enumerate_eq)
  from assms have "?pis ! k \<in> set ?pis" by simp
  then have present: "array_get embeddings (?pis ! k) \<noteq> None"
    unfolding present_indices_def by simp
  show "ps_id (map (expected_point gen metadata chunks embeddings) (enumerate d ?pis) ! k) = gen (d + k)"
    unfolding nth by (simp add: expected_point_def)
  show "array_get embeddings (?pis ! k) =
           Some (ps_vector (map (expected_point gen metadata chunks embeddings) (enumerate d ?pis) ! k))"
    using present unfolding nth by (auto simp: expected_point_def)
  show "map_of (ps_payload (map (expected_point gen metadata chunks embeddings) (enumerate d ?pis) ! k)) =
           (map_of metadata)(''content'' \<mapsto> JStr (chunks ! (?pis ! k)),
                             ''chunkIndex'' \<mapsto> JNum (int (?pis ! k)))"
    unfolding nth by (simp add: expected_point_def update_conv')
qed

lemma addDocument_chunks_points:
  assumes "embed p chunks = Inr embeddings"
      and "length embeddings = length chunks"
      and "addDocument_chunks p chunks metadata w = (res, w')"
  shows "\<exists>points.
      length points = length (present_indices embeddings (length chunks))
    \<and> (\<forall>k < length points.
          ps_id (points ! k) = uuidv4 p (uuid_drawn w + k)
        \<and> array_get embeddings (present_indices embeddings (length chunks) ! k) =
            Some (ps_vector (points ! k))
        \<and> map_of (ps_payload (points ! k)) =
            (map_of metadata)
              (''content'' \<mapsto> JStr (chunks ! (present_indices embeddings (length chunks) ! k)),
               ''chunkIndex'' \<mapsto> JNum (int (present_indices embeddings (length chunks) ! k))))
    \<and> (inj (uuidv4 p) \<longrightarrow> distinct (map ps_id points))
    \<and> uuid_drawn w' = uuid_drawn w + length points
    \<and> calls w' = calls w @ (if points = [] then []
                             else [Upsert (collectionName p) \<lparr>up_wait = True, up_points = points\<rparr>])
    \<and> (points = []
         \<or> fst (upsert (client p) (collectionName p) \<lparr>up_wait = True, up_points = points\<rparr> (backend w)) = None
        \<longrightarrow> res = Inr (map ps_id points))"
proof -
  let ?pis = "present_indices embeddings (length chunks)"
  let ?points = "map (expected_point (uuidv4 p) metadata chunks embeddings)
                   (enumerate (uuid_drawn w) ?pis)"
  have len: "length ?points = length ?pis" by simp
  have each: "\<forall>k < length ?points.
          ps_id (?points ! k) = uuidv4 p (uuid_drawn w + k)
        \<and> array_get embeddings (?pis ! k) = Some (ps_vector (?points ! k))
        \<and> map_of (ps_payload (?points ! k)) =
            (map_of metadata)(''content'' \<mapsto> JStr (chunks ! (?pis ! k)),
                              ''chunkIndex'' \<mapsto> JNum (int (?pis ! k)))"
    using expected_point_nth[of _ embeddings "length chunks" "uuidv4 p" metadata chunks "uuid_drawn w"]
    unfolding len by blast
  have fresh: "inj (uuidv4 p) \<longrightarrow> distinct (map ps_id ?points)"
  proof
    assume inj: "inj (uuidv4 p)"
    show "distinct (map ps_id ?points)"
      unfolding distinct_conv_nth
    proof (intro allI impI)
      fix i j
      assume "i < length (map ps_id ?points)" and "j < length (map ps_id ?points)" and "i \<noteq> j"
      then have i: "i < length ?pis" and j: "j < length ?pis" by simp_all
      have "ps_id (?points ! i) = uuidv4 p (uuid_drawn w + i)"
        and "ps_id (?points ! j) = uuidv4 p (uuid_drawn w + j)"
        using expected_point_nth(1)[OF i] expected_point_nth(1)[OF j] by blast+
      moreover from inj \<open>i \<noteq> j\<close> have "uuidv4 p (uuid_drawn w + i) \<noteq> uuidv4 p (uuid_drawn w + j)"
        by (auto dest: injD)
      ultimately have "ps_id (?points ! i) \<noteq> ps_id (?points ! j)" by simp
      with i j show "map ps_id ?points ! i \<noteq> map ps_id ?points ! j"
        by (simp del: nth_enumerate_eq)
    qed
  qed
  let ?req = "\<lparr>up_wait = True, up_points = ?points\<rparr>"
  let ?up = "upsert (client p) (collectionName p) ?req (backend w)"
  let ?w1 = "w\<lparr>uuid_drawn := uuid_drawn w + length ?points\<rparr>"
  let ?w2 = "?w1\<lparr>backend := snd ?up, calls := calls w @ [Upsert (collectionName p) ?req]\<rparr>"
  have run: "(res, w') =
      (if ?points = [] then (Inr [], ?w1)
       else (case fst ?up of
               None \<Rightarrow> (Inr (map ps_id ?points), ?w2)
             | Some error \<Rightarrow> (Inl (upsert_catch p error), ?w2)))"
    unfolding assms(3)[symmetric] addDocument_chunks_unfold[OF assms(1)] Let_def ..
  have world1: "w' = ?w1" and res1: "res = Inr (map ps_id ?points)" if "?points = []"
    using run that by simp_all
  have world2: "w' = ?w2" if "?points \<noteq> []"
    using run that by (cases "fst ?up") simp_all
  have res2: "res = Inr (map ps_id ?points)" if "?points \<noteq> []" "fst ?up = None"
    using run that by simp
  have drawn: "uuid_drawn w' = uuid_drawn w + length ?points"
    using world1 world2 by (cases "?points = []") simp_all
  have log: "calls w' = calls w @ (if ?points = [] then []
                 else [Upsert (collectionName p) \<lparr>up_wait = True, up_points = ?points\<rparr>])"
    using world1 world2 by (cases "?points = []") simp_all
  have ret: "?points = [] \<or> fst ?up = None \<longrightarrow> res = Inr (map ps_id ?points)"
    using res1 res2 by blast
  show ?thesis
    by (rule exI[of _ ?points]) (intro conjI len each fresh drawn log ret)
qed

text \<open>
  Claim C3. When there are no chunks, or when the embeddings module answers and no chunk
  index has an embedding, \<^verbatim>\<open>addDocument\<close> returns the empty id list and leaves the world
  as it was: no call is added to the calls issued to the store, the backend is untouched
  and no id is drawn. The outcome is a result, not an error.
\<close>

theorem addDocument_no_points_no_store_call:
  assumes "chunks = [] \<or> (embed p chunks = Inr embeddings
                           \<and> (\<forall>i < length chunks. array_get embeddings i = None))"
  shows "addDocument_chunks p chunks metadata w = (Inr [], w)"
  using assms
proof
  assume "chunks = []"
  then show ?thesis by (simp add: addDocument_chunks_def)
next
  assume a: "embed p chunks = Inr embeddings \<and> (\<forall>i < length chunks. array_get embeddings i = None)"
  then have "present_indices embeddings (length chunks) = []"
    by (simp add: present_indices_def filter_empty_conv)
  with a show ?thesis
    by (simp add: addDocument_chunks_unfold[of p chunks embeddings])
qed

lemma simpleChunker_default_returns:
  "\<exists>chunks. simpleChunker content defaultChunkSize defaultOverlap = Some chunks \<and> chunks \<noteq> []"
proof (cases "content = []")
  case True
  then show ?thesis
    by (simp add: simpleChunker_def simpleChunker_trace_def defaultChunkSize_def)
next
  case False
  have "defaultOverlap < defaultChunkSize"
    by (simp add: defaultOverlap_def defaultChunkSize_def)
  from simpleChunker_trace_windows[OF False this] obtain n where "0 < n"
    and "simpleChunker_trace content defaultChunkSize defaultOverlap =
           Some (map (\<lambda>k. window content defaultChunkSize (int k * (defaultChunkSize - defaultOverlap)))
                   [0..<n])"
    by blast
  then show ?thesis by (simp add: simpleChunker_def)
qed

text \<open>
  Claim C1. \<^verbatim>\<open>addDocument\<close> returns on every content: the default chunker returns a chunk
  list. Let the embeddings module answer this chunk list with a result sequence of the
  same length. Then \<^verbatim>\<open>addDocument\<close> builds one point for each chunk index whose embedding
  is present, in ascending index order, and none for an index whose embedding is absent.
  The \<open>k\<close>-th point carries the \<open>k\<close>-th id newly drawn from \<^verbatim>\<open>uuidv4\<close>, the embedding
  of its chunk, and a payload whose fields are those of the caller's metadata with
  \<^verbatim>\<open>content\<close> set to the chunk text and \<^verbatim>\<open>chunkIndex\<close> to the chunk index. As many ids
  are drawn as there are points, and the ids differ from one another when \<^verbatim>\<open>uuidv4\<close>
  never returns an id twice. The points are sent in one upsert request (none is sent
  when there is no point), and when there is no point or the store accepts the request,
  the result of \<^verbatim>\<open>addDocument\<close> is the list of the points' ids, in that order.
\<close>

theorem addDocument_best_effort_per_chunk:
  "\<exists>chunks.
      simpleChunker content defaultChunkSize defaultOverlap = Some chunks
    \<and> chunks \<noteq> []
    \<and> (\<forall>embeddings.
          embed p chunks = Inr embeddings \<and> length embeddings = length chunks \<longrightarrow>
          (\<exists>res w' points.
              addDocument p content metadata w = Some (res, w')
            \<and> length points = length (present_indices embeddings (length chunks))
            \<and> (\<forall>k < length points.
                  ps_id (points ! k) = uuidv4 p (uuid_drawn w + k)
                \<and> array_get embeddings (present_indices embeddings (length chunks) ! k) = Some (ps_vector (points ! k))
                \<and> map_of (ps_payload (points ! k)) =
                    (map_of (obj_spread metadata))
                      (''content'' \<mapsto> JStr (chunks ! (present_indices embeddings (length chunks) ! k)),
                       ''chunkIndex'' \<mapsto> JNum (int (present_indices embeddings (length chunks) ! k))))
            \<and> (inj (uuidv4 p) \<longrightarrow> distinct (map ps_id points))
            \<and> uuid_drawn w' = uuid_drawn w + length points
            \<and> calls w' = calls w @ (if points = [] then []
                                     else [Upsert (collectionName p) \<lparr>up_wait = True, up_points = points\<rparr>])
            \<and> (points = []
                 \<or> fst (upsert (client p) (collectionName p) \<lparr>up_wait = True, up_points = points\<rparr>
                         (backend w)) = None
                \<longrightarrow> res = Inr (map ps_id points))))"
proof -
  from simpleChunker_default_returns obtain chunks where
    chunked: "simpleChunker content defaultChunkSize defaultOverlap = Some chunks"
    and nonempty: "chunks \<noteq> []"
    by blast
  have points: "embed p chunks = Inr embeddings \<and> length embeddings = length chunks \<longrightarrow>
          (\<exists>res w' points.
              addDocument p content metadata w = Some (res, w')
            \<and> length points = length (present_indices embeddings (length chunks))
            \<and> (\<forall>k < length points.
                  ps_id (points ! k) = uuidv4 p (uuid_drawn w + k)
                \<and> array_get embeddings (present_indices embeddings (length chunks) ! k) = Some (ps_vector (points ! k))
                \<and> map_of (ps_payload (points ! k)) =
                    (map_of (obj_spread metadata))
                      (''content'' \<mapsto> JStr (chunks ! (present_indices embeddings (length chunks) ! k)),
                       ''chunkIndex'' \<mapsto> JNum (int (present_indices embeddings (length chunks) ! k))))
            \<and> (inj (uuidv4 p) \<longrightarrow> distinct (map ps_id points))
            \<and> uuid_drawn w' = uuid_drawn w + length points
            \<and> calls w' = calls w @ (if points = [] then []
                                     else [Upsert (collectionName p) \<lparr>up_wait = True, up_points = points\<rparr>])
            \<and> (points = []
                 \<or> fst (upsert (client p) (collectionName p) \<lparr>up_wait = True, up_points = points\<rparr>
                         (backend w)) = None
                \<longrightarrow> res = Inr (map ps_id points)))"
    for embeddings
  proof
    assume a: "embed p chunks = Inr embeddings \<and> length embeddings = length chunks"
    then have e: "embed p chunks = Inr embeddings" and l: "length embeddings = length chunks"
      by simp_all
    obtain res w' where run: "addDocument_chunks p chunks (obj_spread metadata) w = (res, w')"
      by (rule prod.exhaust)
    with chunked have ret: "addDocument p content metadata w = Some (res, w')"
      by (simp add: addDocument_def)
    from addDocument_chunks_points[OF e l run] ret
    show "(\<exists>res w' points.
              addDocument p content metadata w = Some (res, w')
            \<and> length points = length (present_indices embeddings (length chunks))
            \<and> (\<forall>k < length points.
                  ps_id (points ! k) = uuidv4 p (uuid_drawn w + k)
                \<and> array_get embeddings (present_indices embeddings (length chunks) ! k) = Some (ps_vector (points ! k))
                \<and> map_of (ps_payload (points ! k)) =
                    (map_of (obj_spread metadata))
                      (''content'' \<mapsto> JStr (chunks ! (present_indices embeddings (length chunks) ! k)),
                       ''chunkIndex'' \<mapsto> JNum (int (present_indices embeddings (length chunks) ! k))))
            \<and> (inj (uuidv4 p) \<longrightarrow> distinct (map ps_id points))
            \<and> uuid_drawn w' = uuid_drawn w + length points
            \<and> calls w' = calls w @ (if points = [] then []
                                     else [Upsert (collectionName p) \<lparr>up_wait = True, up_points = points\<rparr>])
            \<and> (points = []
                 \<or> fst (upsert (client p) (collectionName p) \<lparr>up_wait = True, up_points = points\<rparr>
                         (backend w)) = None
                \<longrightarrow> res = Inr (map ps_id points)))"
      by (elim exE conjE) (intro exI conjI; assumption)
  qed
  show ?thesis
    by (rule exI[of _ chunks]) (intro conjI allI chunked nonempty points)
qed

theorem addDocument_best_effort_per_chunk_witness:
  "simpleChunker (replicate 301 (CHR ''a'')) defaultChunkSize defaultOverlap =
     Some [replicate 300 (CHR ''a''), replicate 51 (CHR ''a'')]
   \<and> embed picky_provider [replicate 300 (CHR ''a''), replicate 51 (CHR ''a'')] = Inr [Some [300], None]
   \<and> length [Some [300::int], None] = length [replicate 300 (CHR ''a''), replicate 51 (CHR ''a'')]
   \<and> inj (uuidv4 picky_provider)
   \<and> (\<exists>ids w'. addDocument picky_provider (replicate 301 (CHR ''a''))
                   (Some [(''source'', JStr ''a.txt'')]) demo_world = Some (Inr ids, w')
          \<and> length ids = 1 \<and> distinct ids \<and> uuid_drawn w' = 1)"
proof -
  let ?content = "replicate 301 (CHR ''a'')"
  let ?cs = "[replicate 300 (CHR ''a''), replicate 51 (CHR ''a'')]"
  let ?embs = "[Some [300::int], None]"
  let ?md = "Some [(''source'', JStr ''a.txt'')]"
  have ch: "simpleChunker ?content defaultChunkSize defaultOverlap = Some ?cs"
    by code_simp
  have e: "embed picky_provider ?cs = Inr ?embs"
    by (simp add: picky_provider_def)
  have l: "length ?embs = length ?cs" by simp
  have i: "inj (uuidv4 picky_provider)"
    by (rule injI) (simp add: picky_provider_def demo_provider_def)
  from addDocument_best_effort_per_chunk[of ?content picky_provider ?md demo_world]
  obtain chunks where
    chunked: "simpleChunker ?content defaultChunkSize defaultOverlap = Some chunks"
    and points: "\<forall>embeddings.
          embed picky_provider chunks = Inr embeddings \<and> length embeddings = length chunks \<longrightarrow>
          (\<exists>res w' points.
              addDocument picky_provider ?content ?md demo_world = Some (res, w')
            \<and> length points = length (present_indices embeddings (length chunks))
            \<and> (\<forall>k < length points.
                  ps_id (points ! k) = uuidv4 picky_provider (uuid_drawn demo_world + k)
                \<and> array_get embeddings (present_indices embeddings (length chunks) ! k) = Some (ps_vector (points ! k))
                \<and> map_of (ps_payload (points ! k)) =
                    (map_of (obj_spread ?md))
                      (''content'' \<mapsto> JStr (chunks ! (present_indices embeddings (length chunks) ! k)),
                       ''chunkIndex'' \<mapsto> JNum (int (present_indices embeddings (length chunks) ! k))))
            \<and> (inj (uuidv4 picky_provider) \<longrightarrow> distinct (map ps_id points))
            \<and> uuid_drawn w' = uuid_drawn demo_world + length points
            \<and> calls w' = calls demo_world @ (if points = [] then []
                                     else [Upsert (collectionName picky_provider) \<lparr>up_wait = True, up_points = points\<rparr>])
            \<and> (points = []
                 \<or> fst (upsert (client picky_provider) (collectionName picky_provider) \<lparr>up_wait = True, up_points = points\<rparr>
                         (backend demo_world)) = None
                \<longrightarrow> res = Inr (map ps_id points)))"
    by (elim exE conjE)
  from chunked ch have cs: "chunks = ?cs" by simp
  from e l have hyp: "embed picky_provider chunks = Inr ?embs \<and> length ?embs = length chunks"
    unfolding cs by (rule conjI)
  have "(\<exists>res w' points.
              addDocument picky_provider ?content ?md demo_world = Some (res, w')
            \<and> length points = length (present_indices ?embs (length chunks))
            \<and> (\<forall>k < length points.
                  ps_id (points ! k) = uuidv4 picky_provider (uuid_drawn demo_world + k)
                \<and> array_get ?embs (present_indices ?embs (length chunks) ! k) = Some (ps_vector (points ! k))
                \<and> map_of (ps_payload (points ! k)) =
                    (map_of (obj_spread ?md))
                      (''content'' \<mapsto> JStr (chunks ! (present_indices ?embs (length chunks) ! k)),
                       ''chunkIndex'' \<mapsto> JNum (int (present_indices ?embs (length chunks) ! k))))
            \<and> (inj (uuidv4 picky_provider) \<longrightarrow> distinct (map ps_id points))
            \<and> uuid_drawn w' = uuid_drawn demo_world + length points
            \<and> calls w' = calls demo_world @ (if points = [] then []
                                     else [Upsert (collectionName picky_provider) \<lparr>up_wait = True, up_points = points\<rparr>])
            \<and> (points = []
                 \<or> fst (upsert (client picky_provider) (collectionName picky_provider) \<lparr>up_wait = True, up_points = points\<rparr>
                         (backend demo_world)) = None
                \<longrightarrow> res = Inr (map ps_id points)))"
    by (rule mp[OF spec[OF points, of ?embs] hyp])
  then have "\<exists>res w' (points :: int list point_struct list).
        addDocument picky_provider ?content ?md demo_world = Some (res, w')
      \<and> length points = length (present_indices ?embs (length chunks))
      \<and> (inj (uuidv4 picky_provider) \<longrightarrow> distinct (map ps_id points))
      \<and> uuid_drawn w' = uuid_drawn demo_world + length points
      \<and> (points = []
           \<or> fst (upsert (client picky_provider) (collectionName picky_provider)
                   \<lparr>up_wait = True, up_points = points\<rparr> (backend demo_world)) = None
          \<longrightarrow> res = Inr (map ps_id points))"
    by (elim exE conjE) (intro exI conjI; assumption)
  then obtain res w' and points :: "int list point_struct list" where
    run: "addDocument picky_provider ?content ?md demo_world = Some (res, w')"
    and len: "length points = length (present_indices ?embs (length chunks))"
    and fresh: "inj (uuidv4 picky_provider) \<longrightarrow> distinct (map ps_id points)"
    and drawn: "uuid_drawn w' = uuid_drawn demo_world + length points"
    and ret: "points = []
           \<or> fst (upsert (client picky_provider) (collectionName picky_provider)
                   \<lparr>up_wait = True, up_points = points\<rparr> (backend demo_world)) = None
          \<longrightarrow> res = Inr (map ps_id points)"
    by (elim exE conjE)
  have accepted: "fst (upsert (client picky_provider) (collectionName picky_provider)
                   \<lparr>up_wait = True, up_points = points\<rparr> (backend demo_world)) = None"
    by (simp add: picky_provider_def demo_provider_def demo_client_def)
  have one: "present_indices ?embs (length ?cs) = [0]"
    by code_simp
  from len one have n: "length (map ps_id points) = 1" unfolding cs by simp
  from drawn n have d: "uuid_drawn w' = 1" by (simp add: demo_world_def)
  from ret accepted have r: "res = Inr (map ps_id points)" by (rule mp[OF _ disjI2])
  from fresh i have f: "distinct (map ps_id points)" by (rule mp)
  from run r n f d
  have "\<exists>ids w'. addDocument picky_provider ?content ?md demo_world = Some (Inr ids, w')
          \<and> length ids = 1 \<and> distinct ids \<and> uuid_drawn w' = 1"
    by (intro exI[of _ "map ps_id points"] exI[of _ w'] conjI) simp_all
  with ch e l i show ?thesis by (intro conjI)
qed

theorem addDocument_no_points_no_store_call_witness:
  "embed demo_provider ['''', ''''] = Inr [None, None]
   \<and> addDocument_chunks demo_provider ['''', ''''] [] demo_world = (Inr [], demo_world)"
proof -
  have e: "embed demo_provider ['''', ''''] = Inr [None, None]" by (simp add: demo_provider_def)
  have a: "\<forall>i < length ['''', '''']. array_get [None, None :: int list option] i = None"
    by (simp add: array_get_def nth_Cons split: nat.splits)
  from addDocument_no_points_no_store_call[of "['''', '''']" demo_provider "[None, None]" "[]" demo_world]
    e a show ?thesis by blast
qed

section \<open>deleteStorage: teardown of a missing collection\<close>

lemma matches_at_iff:
  "matches_at pat s \<longleftrightarrow> (\<exists>mid post. s = mid @ post \<and> map lower mid = map lower pat)"
proof
  assume "matches_at pat s"
  then have "s = take (length pat) s @ drop (length pat) s
             \<and> map lower (take (length pat) s) = map lower pat"
    by (simp add: matches_at_def)
  then show "\<exists>mid post. s = mid @ post \<and> map lower mid = map lower pat" by blast
next
  assume "\<exists>mid post. s = mid @ post \<and> map lower mid = map lower pat"
  then obtain mid post where s: "s = mid @ post" and m: "map lower mid = map lower pat" by blast
  from m have "length mid = length pat" by (rule map_eq_imp_length_eq)
  with s m show "matches_at pat s" by (simp add: matches_at_def)
qed

lemma regex_test_splits:
  "regex_test pat s \<longleftrightarrow> (\<exists>pre mid post. s = pre @ mid @ post \<and> map lower mid = map lower pat)"
proof (induction s)
  case Nil
  show ?case by (auto simp: matches_at_iff)
next
  case (Cons c cs)
  show ?case
  proof
    assume "regex_test pat (c # cs)"
    then consider "matches_at pat (c # cs)" | "regex_test pat cs" by auto
    then show "\<exists>pre mid post. c # cs = pre @ mid @ post \<and> map lower mid = map lower pat"
    proof cases
      case 1
      then obtain mid post where "c # cs = [] @ mid @ post" "map lower mid = map lower pat"
        by (auto simp: matches_at_iff)
      then show ?thesis by blast
    next
      case 2
      with Cons.IH obtain pre mid post where "cs = pre @ mid @ post" "map lower mid = map lower pat"
        by blast
      then have "c # cs = (c # pre) @ mid @ post" by simp
      with \<open>map lower mid = map lower pat\<close> show ?thesis by blast
    qed
  next
    assume "\<exists>pre mid post. c # cs = pre @ mid @ post \<and> map lower mid = map lower pat"
    then obtain pre mid post where s: "c # cs = pre @ mid @ post"
      and m: "map lower mid = map lower pat" by blast
    show "regex_test pat (c # cs)"
    proof (cases pre)
      case Nil
      with s m have "matches_at pat (c # cs)" by (auto simp: matches_at_iff)
      then show ?thesis by simp
    next
      case (Cons d pre')
      with s have "cs = pre' @ mid @ post" by simp
      with m Cons.IH have "regex_test pat cs" by blast
      then show ?thesis by simp
    qed
  qed
qed

lemma regex_test_iff: "regex_test pat s \<longleftrightarrow> mentions_ci pat s"
  unfolding mentions_ci_def by (rule regex_test_splits)

lemma deleteStorage_result:
  assumes "deleteCollection (client p) (collectionName p) (backend w) = (r, b)"
  shows "backend (snd (deleteStorage p w)) = b"
    and "fst (deleteStorage p w) =
           (case r of Inr result \<Rightarrow> Inr ()
            | Inl error \<Rightarrow> if is_not_found error then Inr ()
                else Inl (JsError (''Qdrant collection deletion failed: '' @ error_text error)))"
  using assms by (auto simp: deleteStorage_def Let_def split: sum.splits)

text \<open>
  Claim C6. Let \<open>r1\<close> be what the backend answers to the request to drop the collection,
  and \<open>r2\<close> what it answers to the same request made right after. (1) When the backend
  reports the collection missing, by returning \<^verbatim>\<open>false\<close> or by throwing an
  \<^verbatim>\<open>Error\<close> whose message contains "not found" in any letter case,
  \<^verbatim>\<open>deleteStorage\<close> completes without raising. (2) When the backend throws anything
  else, \<^verbatim>\<open>deleteStorage\<close> raises an \<^verbatim>\<open>Error\<close> whose message is that of the thrown
  value behind the prefix "Qdrant collection deletion failed: ". (3) Hence when
  the first request drops the collection and the second finds it missing, two calls of
  \<^verbatim>\<open>deleteStorage\<close> in a row both complete without raising.
\<close>

theorem deleteStorage_idempotent_teardown:
  assumes first: "deleteCollection (client p) (collectionName p) (backend w) = (r1, b1)"
      and second: "deleteCollection (client p) (collectionName p) b1 = (r2, b2)"
  shows "(r1 = Inr False
            \<or> (\<exists>msg. r1 = Inl (JsError msg) \<and> mentions_ci ''not found'' msg)
          \<longrightarrow> fst (deleteStorage p w) = Inr ())
       \<and> (\<forall>e. r1 = Inl e
               \<and> \<not> (\<exists>msg. e = JsError msg \<and> mentions_ci ''not found'' msg)
          \<longrightarrow> fst (deleteStorage p w) =
                Inl (JsError (''Qdrant collection deletion failed: '' @ error_text e)))
       \<and> (r1 = Inr True
            \<and> (r2 = Inr False
                \<or> (\<exists>msg. r2 = Inl (JsError msg) \<and> mentions_ci ''not found'' msg))
          \<longrightarrow> fst (deleteStorage p w) = Inr ()
              \<and> fst (deleteStorage p (snd (deleteStorage p w))) = Inr ())"
proof -
  have nf: "is_not_found e \<longleftrightarrow>
      (\<exists>msg. e = JsError msg \<and> mentions_ci ''not found'' msg)" for e
  proof (cases e)
    case (JsError msg)
    show ?thesis by (simp add: JsError regex_test_iff)
  next
    case (JsThrown s)
    then show ?thesis by simp
  qed
  note r1 = deleteStorage_result[OF first]
  from r1(1) second
  have second': "deleteCollection (client p) (collectionName p) (backend (snd (deleteStorage p w))) = (r2, b2)"
    by simp
  note r2 = deleteStorage_result[OF second']
  have a: "fst (deleteStorage p w) = Inr ()"
    if "r1 = Inr False \<or> (\<exists>msg. r1 = Inl (JsError msg) \<and> mentions_ci ''not found'' msg)"
    using that r1(2) nf by (auto split: sum.splits)
  have b: "fst (deleteStorage p w) = Inl (JsError (''Qdrant collection deletion failed: '' @ error_text e))"
    if "r1 = Inl e" "\<not> (\<exists>msg. e = JsError msg \<and> mentions_ci ''not found'' msg)" for e
    using that r1(2) nf[of e] by simp
  have c: "fst (deleteStorage p w) = Inr () \<and> fst (deleteStorage p (snd (deleteStorage p w))) = Inr ()"
    if "r1 = Inr True" "r2 = Inr False \<or> (\<exists>msg. r2 = Inl (JsError msg) \<and> mentions_ci ''not found'' msg)"
    using that r1(2) r2(2) nf by (auto split: sum.splits)
  from a b c show ?thesis by blast
qed

theorem deleteStorage_idempotent_teardown_witness:
  "deleteCollection (client demo_provider) (collectionName demo_provider) (backend demo_world)
     = (Inr True, [])
   \<and> deleteCollection (client demo_provider) (collectionName demo_provider) []
     = (Inl (JsError ''Not Found''), [])
   \<and> mentions_ci ''not found'' ''Not Found''
   \<and> fst (deleteStorage demo_provider demo_world) = Inr ()
   \<and> fst (deleteStorage demo_provider (snd (deleteStorage demo_provider demo_world))) = Inr ()
   \<and> fst (deleteStorage demo_provider (demo_world\<lparr>backend := []\<rparr>)) = Inr ()
   \<and> fst (deleteStorage unreachable_provider demo_world) =
       Inl (JsError ''Qdrant collection deletion failed: connect ECONNREFUSED'')"
proof -
  have first: "deleteCollection (client demo_provider) (collectionName demo_provider)
      (backend demo_world) = (Inr True, [])"
    by (simp add: demo_provider_def demo_client_def demo_world_def)
  have second: "deleteCollection (client demo_provider) (collectionName demo_provider) []
      = (Inl (JsError ''Not Found''), [])"
    by (simp add: demo_provider_def demo_client_def)
  have "regex_test ''not found'' ''Not Found''" by code_simp
  then have m: "mentions_ci ''not found'' ''Not Found''" by (simp add: regex_test_iff)
  then have missing: "(Inl (JsError ''Not Found'') :: thrown + bool) = Inr False
         \<or> (\<exists>msg. (Inl (JsError ''Not Found'') :: thrown + bool) = Inl (JsError msg)
              \<and> mentions_ci ''not found'' msg)"
    by blast
  from deleteStorage_idempotent_teardown[OF first second] missing
  have twice: "fst (deleteStorage demo_provider demo_world) = Inr ()
      \<and> fst (deleteStorage demo_provider (snd (deleteStorage demo_provider demo_world))) = Inr ()"
    by blast
  have second': "deleteCollection (client demo_provider) (collectionName demo_provider)
      (backend (demo_world\<lparr>backend := []\<rparr>)) = (Inl (JsError ''Not Found''), [])"
    using second by simp
  from deleteStorage_idempotent_teardown[OF second' second] missing
  have absent: "fst (deleteStorage demo_provider (demo_world\<lparr>backend := []\<rparr>)) = Inr ()"
    by blast
  have down: "deleteCollection (client unreachable_provider) (collectionName unreachable_provider)
      (backend demo_world) = (Inl (JsError ''connect ECONNREFUSED''), backend demo_world)"
    by (simp add: unreachable_provider_def)
  have "\<not> regex_test ''not found'' ''connect ECONNREFUSED''" by code_simp
  then have other: "\<not> (\<exists>msg. JsError ''connect ECONNREFUSED'' = JsError msg
                          \<and> mentions_ci ''not found'' msg)"
    by (simp add: regex_test_iff)
  from deleteStorage_idempotent_teardown[OF down down] other
  have wrapped: "fst (deleteStorage unreachable_provider demo_world) =
       Inl (JsError (''Qdrant collection deletion failed: '' @ error_text (JsError ''connect ECONNREFUSED'')))"
    by blast
  from first second m twice absent wrapped show ?thesis by simp
qed

section \<open>retrieveContext: from hits to chunks\<close>

lemma delete_empty_iff: "AList.delete k al = [] \<longleftrightarrow> dom (map_of al) \<subseteq> {k}"
  by (auto simp: AList.delete_eq filter_empty_conv dom_map_of_conv_image_fst)

lemma toRetrievedChunk_fields:
  "rc_score (toRetrievedChunk hit) = sp_score hit"
  "rc_content (toRetrievedChunk hit) =
     (case payload_fields hit ''content'' of None \<Rightarrow> JStr '''' | Some JNull \<Rightarrow> JStr '''' | Some v \<Rightarrow> v)"
  "rc_metadata (toRetrievedChunk hit) =
     (if dom (payload_fields hit) \<subseteq> {''content''} then None
      else Some (filter (\<lambda>(key, value). ''content'' \<noteq> key) (obj_spread (sp_payload hit))))"
  by (auto simp: toRetrievedChunk_def payload_fields_def obj_spread_def obj_keys_def Let_def
                 delete_empty_iff[symmetric] AList.delete_eq
           split: option.splits)

text \<open>
  Claim C5. When the query is embedded and the search returns the hits \<open>hits\<close>,
  \<^verbatim>\<open>retrieveContext\<close> returns one chunk per hit, in the order of the hits and with the
  hit's score. The content of the chunk is the \<^verbatim>\<open>content\<close> field of the hit's payload;
  it is the empty string when the hit has no payload, the payload has no such field, or
  the field is \<^verbatim>\<open>null\<close>. The metadata of the chunk is the payload without its
  \<^verbatim>\<open>content\<close> field, the other fields kept in order; it is \<^verbatim>\<open>undefined\<close>
  (\<open>None\<close>) exactly when no other field is there.
\<close>

theorem retrieveContext_maps_hits:
  assumes "embed p [queryText] = Inr vectors"
      and "array_get vectors 0 = Some queryVector"
      and "search (client p) (collectionName p)
             (searchRequest queryVector
                (case options of
                   None \<Rightarrow> \<lparr>opt_limit = None, opt_scoreThreshold = None, opt_filter = None\<rparr>
                 | Some opts \<Rightarrow> opts))
             (backend w) = Inr hits"
  shows "\<exists>chunks. fst (retrieveContext p queryText options w) = Inr chunks
           \<and> length chunks = length hits
           \<and> (\<forall>k < length hits.
                 rc_score (chunks ! k) = sp_score (hits ! k)
               \<and> rc_content (chunks ! k) =
                   (case payload_fields (hits ! k) ''content'' of
                      None \<Rightarrow> JStr ''''
                    | Some JNull \<Rightarrow> JStr ''''
                    | Some v \<Rightarrow> v)
               \<and> (case rc_metadata (chunks ! k) of
                      None \<Rightarrow> dom (payload_fields (hits ! k)) \<subseteq> {''content''}
                    | Some md \<Rightarrow>
                        md = filter (\<lambda>(key, value). ''content'' \<noteq> key) (obj_spread (sp_payload (hits ! k)))
                      \<and> map_of md = (payload_fields (hits ! k))(''content'' := None)
                      \<and> dom (map_of md) \<noteq> {}))"
proof -
  have run: "fst (retrieveContext p queryText options w) = Inr (map toRetrievedChunk hits)"
    using assms by (simp add: retrieveContext_def Let_def)
  have md: "case rc_metadata (toRetrievedChunk hit) of
              None \<Rightarrow> dom (payload_fields hit) \<subseteq> {''content''}
            | Some md \<Rightarrow>
                md = filter (\<lambda>(key, value). ''content'' \<noteq> key) (obj_spread (sp_payload hit))
              \<and> map_of md = (payload_fields hit)(''content'' := None)
              \<and> dom (map_of md) \<noteq> {}" for hit :: "'c scored_point"
  proof (cases "dom (payload_fields hit) \<subseteq> {''content''}")
    case True
    then show ?thesis by (simp add: toRetrievedChunk_fields(3))
  next
    case False
    let ?md = "filter (\<lambda>(key, value). ''content'' \<noteq> key) (obj_spread (sp_payload hit))"
    have del: "?md = AList.delete ''content'' (obj_spread (sp_payload hit))"
      by (simp add: AList.delete_eq)
    have fields: "map_of (obj_spread (sp_payload hit)) = payload_fields hit"
      by (simp add: obj_spread_def payload_fields_def split: option.splits)
    have m: "map_of ?md = (payload_fields hit)(''content'' := None)"
      unfolding del by (simp add: delete_conv' fields)
    from False have "dom (map_of ?md) \<noteq> {}"
      unfolding m by auto
    with False m show ?thesis by (simp add: toRetrievedChunk_fields(3))
  qed
  show ?thesis
    by (rule exI[of _ "map toRetrievedChunk hits"])
       (simp add: run toRetrievedChunk_fields(1,2) md)
qed

theorem retrieveContext_maps_hits_witness:
  "embed demo_provider [''q''] = Inr [Some [1]]
   \<and> array_get [Some [1::int]] 0 = Some [1]
   \<and> (\<exists>chunks. fst (retrieveContext demo_provider ''q'' None demo_world) = Inr chunks
          \<and> length chunks = 2
          \<and> rc_content (chunks ! 0) = JStr ''UBC''
          \<and> rc_content (chunks ! 1) = JStr '''')"
proof -
  let ?hit0 = "\<lparr>sp_score = 9 :: int,
                sp_payload = Some [(''content'', JStr ''UBC''), (''source'', JStr ''a.txt'')]\<rparr>"
  let ?hit1 = "\<lparr>sp_score = 7 :: int, sp_payload = None\<rparr>"
  have e: "embed demo_provider [''q''] = Inr [Some [1]]" by (simp add: demo_provider_def)
  have a: "array_get [Some [1::int]] 0 = Some [1]" by (simp add: array_get_def)
  have s: "search (client demo_provider) (collectionName demo_provider)
             (searchRequest [1]
                (case None of
                   None \<Rightarrow> \<lparr>opt_limit = None, opt_scoreThreshold = None, opt_filter = None\<rparr>
                 | Some opts \<Rightarrow> opts))
             (backend demo_world) = Inr [?hit0, ?hit1]"
    by (simp add: demo_provider_def demo_client_def)
  from retrieveContext_maps_hits[OF e a s] obtain chunks where
    run: "fst (retrieveContext demo_provider ''q'' None demo_world) = Inr chunks"
    and len: "length chunks = length [?hit0, ?hit1]"
    and each: "\<forall>k < length [?hit0, ?hit1].
                 rc_content (chunks ! k) =
                   (case payload_fields ([?hit0, ?hit1] ! k) ''content'' of
                      None \<Rightarrow> JStr ''''
                    | Some JNull \<Rightarrow> JStr ''''
                    | Some v \<Rightarrow> v)"
    by blast
  from each have "rc_content (chunks ! 0) = JStr ''UBC''"
    by (simp add: payload_fields_def)
  moreover from each have "rc_content (chunks ! 1) = JStr ''''"
    by (simp add: payload_fields_def)
  ultimately show ?thesis using e a run len by auto
qed

section \<open>retrieveContext: the filter option\<close>

text \<open>
  Claim C10. Two runs of \<^verbatim>\<open>retrieveContext\<close> on the same query text and the same world
  (backend state included) whose options differ in the \<^verbatim>\<open>filter\<close> field only, whatever
  the limit, the score threshold and the two filters (absent or present), give the same
  outcome and the same world: the same result or error and the same calls issued to the
  store. This holds of the provider and of the facade. The search request has no field
  for a filter at all.
\<close>

theorem retrieveContext_ignores_filter:
  fixes p :: "('b, 'v, 's) provider" and m :: "('b, 'v, 's) rag_module"
  shows
  "retrieveContext p queryText (Some (opts\<lparr>opt_filter := f1\<rparr>)) w =
     retrieveContext p queryText (Some (opts\<lparr>opt_filter := f2\<rparr>)) w
   \<and> RAGModule_retrieveContext m queryText (Some (opts\<lparr>opt_filter := f1\<rparr>)) w =
     RAGModule_retrieveContext m queryText (Some (opts\<lparr>opt_filter := f2\<rparr>)) w"
proof -
  have req: "searchRequest v (o1\<lparr>opt_filter := g\<rparr>) = searchRequest v o1"
    for v :: 'v and o1 :: "'s retrieval_options" and g
    by (simp add: searchRequest_def)
  have prov: "retrieveContext q queryText (Some (o1\<lparr>opt_filter := g1\<rparr>)) w =
     retrieveContext q queryText (Some (o1\<lparr>opt_filter := g2\<rparr>)) w"
    for q :: "('b, 'v, 's) provider" and w :: "('b, 'v, 's) world"
      and o1 :: "'s retrieval_options" and g1 g2
    by (simp add: retrieveContext_def req split: sum.splits option.splits)
  let ?final = "\<lparr>opt_limit = (case opt_limit opts of
                                 None \<Rightarrow> defaultRetrievalLimit (rm_config m) | Some l \<Rightarrow> Some l),
                 opt_scoreThreshold = (case opt_scoreThreshold opts of
                                 None \<Rightarrow> defaultScoreThreshold (rm_config m) | Some t \<Rightarrow> Some t),
                 opt_filter = None\<rparr>"
  have facade: "RAGModule_retrieveContext m queryText (Some (opts\<lparr>opt_filter := g\<rparr>)) w =
      (case ensureInitialized m of
         Some e \<Rightarrow> (Inl e, w)
       | None \<Rightarrow> retrieveContext (rm_ragProvider m) queryText (Some (?final\<lparr>opt_filter := g\<rparr>)) w)"
    for g
    by (cases "ensureInitialized m") (simp_all add: RAGModule_retrieveContext_def)
  have "RAGModule_retrieveContext m queryText (Some (opts\<lparr>opt_filter := f1\<rparr>)) w =
     RAGModule_retrieveContext m queryText (Some (opts\<lparr>opt_filter := f2\<rparr>)) w"
    unfolding facade prov[where q = "rm_ragProvider m" and ?o1.0 = ?final and ?g1.0 = f1 and ?g2.0 = f2] ..
  with prov show ?thesis by blast
qed

section \<open>The facade and getDocumentsByMetadata\<close>

text \<open>
  Claim C4. \<^verbatim>\<open>RAGModuleInterface\<close> declares \<^verbatim>\<open>getDocumentsByMetadata\<close> and
  \<^verbatim>\<open>QdrantProvider\<close> defines it, but the class \<^verbatim>\<open>RAGModule\<close> defines no method of
  that name: the facade cannot delegate the operation.
\<close>

theorem RAGModule_lacks_getDocumentsByMetadata:
  "GetDocumentsByMetadata \<in> set RAGModuleInterface_methods
   \<and> GetDocumentsByMetadata \<in> set QdrantProvider_methods
   \<and> GetDocumentsByMetadata \<notin> set RAGModule_methods"
  by (simp add: RAGModuleInterface_methods_def QdrantProvider_methods_def RAGModule_methods_def)

section \<open>getDocumentsByMetadata: the paginated scan\<close>

lemma scroll_loop_chain:
  assumes "page_chain p filt (backend w) off rs"
  shows "\<exists>w'. scroll_loop p filt off acc w = Some (Inr (acc @ concat (map resp_points rs)), w')
           \<and> backend w' = backend w
           \<and> uuid_drawn w' = uuid_drawn w
           \<and> calls w' = calls w @ map (\<lambda>c. Scroll (collectionName p) (scrollRequest filt c))
                                      (off # map resp_next_page_offset (butlast rs))"
  using assms
proof (induction rs arbitrary: off acc w)
  case Nil
  then show ?case by simp
next
  case (Cons r rs)
  let ?w1 = "w\<lparr>calls := calls w @ [Scroll (collectionName p) (scrollRequest filt off)]\<rparr>"
  from Cons.prems have page:
    "scroll (client p) (collectionName p) (scrollRequest filt off) (backend w) = Inr r"
    by simp
  show ?case
  proof (cases "rs = []")
    case True
    with Cons.prems have "\<not> truthy (resp_next_page_offset r)" by simp
    with page have "scroll_loop p filt off acc w = Some (Inr (acc @ resp_points r), ?w1)"
      by (subst scroll_loop.simps) (simp add: Let_def)
    with True show ?thesis by simp
  next
    case False
    with Cons.prems have t: "truthy (resp_next_page_offset r)"
      and rest: "page_chain p filt (backend ?w1) (resp_next_page_offset r) rs"
      by simp_all
    from page t have unfold: "scroll_loop p filt off acc w =
        scroll_loop p filt (resp_next_page_offset r) (acc @ resp_points r) ?w1"
      by (subst scroll_loop.simps) (simp add: Let_def)
    from Cons.IH[OF rest, of "acc @ resp_points r"] obtain w' where
      "scroll_loop p filt (resp_next_page_offset r) (acc @ resp_points r) ?w1 =
         Some (Inr ((acc @ resp_points r) @ concat (map resp_points rs)), w')"
      and "backend w' = backend ?w1" and "uuid_drawn w' = uuid_drawn ?w1"
      and "calls w' = calls ?w1 @ map (\<lambda>c. Scroll (collectionName p) (scrollRequest filt c))
                                      (resp_next_page_offset r # map resp_next_page_offset (butlast rs))"
      by blast
    with False unfold show ?thesis by simp
  qed
qed

lemma getDocumentsByMetadata_empty_first_page:
  assumes "scroll (client p) (collectionName p) (scrollRequest filt None) (backend w) = Inr r"
      and "resp_points r = []"
      and "resp_next_page_offset r = None"
  shows "map_option fst (getDocumentsByMetadata p filt w) = Some (Inr [])"
proof -
  from assms(1,3) have "page_chain p filt (backend w) None [r]" by simp
  from scroll_loop_chain[OF this, of "[]"] assms(2)
  show ?thesis by (auto simp: getDocumentsByMetadata_def)
qed

text \<open>
  Claim C2. Let \<open>rs\<close> be the pages the backend serves for the filter: the first one for
  the request without cursor, each further one for the request with the cursor of the
  page before, the last one being the first that carries no cursor. The loop takes a
  cursor for missing when it is falsy, which \<^verbatim>\<open>undefined\<close> and \<^verbatim>\<open>null\<close> are, and of
  the point ids only the number 0 and the empty string; a scan hands out as cursor the id
  of the first point of the next page, which is neither. Then
  \<^verbatim>\<open>getDocumentsByMetadata\<close> returns, and it returns the points of all these pages in
  order, each with its id and its vector. It has asked for exactly these pages and
  nothing else: every request carries the filter as the list \<^verbatim>\<open>must\<close> of one
  key-equals-value condition per entry, the page size 250, the cursor of the page before
  (none for the first) and the wish for payload and vectors. The backend is left as it
  was. With a first page that is empty and has no cursor, \<open>rs\<close> is that page alone and
  the result is the empty list.
\<close>

theorem getDocumentsByMetadata_follows_cursors:
  assumes "page_chain p filt (backend w) None rs"
  shows "\<exists>w'. getDocumentsByMetadata p filt w =
                 Some (Inr (map toDocument (concat (map resp_points rs))), w')
           \<and> map doc_id (map toDocument (concat (map resp_points rs))) =
               map rec_id (concat (map resp_points rs))
           \<and> map doc_vector (map toDocument (concat (map resp_points rs))) =
               map rec_vector (concat (map resp_points rs))
           \<and> backend w' = backend w
           \<and> calls w' = calls w @
               map (\<lambda>cursor. Scroll (collectionName p)
                      \<lparr>sr_filter_must =
                         map (\<lambda>(key, value). \<lparr>cond_key = key, cond_match_value = value\<rparr>) filt,
                       sr_limit = 250,
                       sr_offset = cursor,
                       sr_with_payload = True,
                       sr_with_vector = True\<rparr>)
                   (None # map resp_next_page_offset (butlast rs))"
proof -
  from scroll_loop_chain[OF assms, of "[]"] obtain w' where
    loop: "scroll_loop p filt None [] w = Some (Inr (concat (map resp_points rs)), w')"
    and b: "backend w' = backend w"
    and c: "calls w' = calls w @ map (\<lambda>c. Scroll (collectionName p) (scrollRequest filt c))
                                      (None # map resp_next_page_offset (butlast rs))"
    by auto
  from loop have run: "getDocumentsByMetadata p filt w =
      Some (Inr (map toDocument (concat (map resp_points rs))), w')"
    by (simp add: getDocumentsByMetadata_def)
  have ids: "map doc_id (map toDocument (concat (map resp_points rs))) =
      map rec_id (concat (map resp_points rs))"
    by (simp add: toDocument_def comp_def)
  have vectors: "map doc_vector (map toDocument (concat (map resp_points rs))) =
      map rec_vector (concat (map resp_points rs))"
    by (simp add: toDocument_def comp_def)
  from c have log: "calls w' = calls w @
               map (\<lambda>cursor. Scroll (collectionName p)
                      \<lparr>sr_filter_must =
                         map (\<lambda>(key, value). \<lparr>cond_key = key, cond_match_value = value\<rparr>) filt,
                       sr_limit = 250,
                       sr_offset = cursor,
                       sr_with_payload = True,
                       sr_with_vector = True\<rparr>)
                   (None # map resp_next_page_offset (butlast rs))"
    unfolding scrollRequest_def .
  show ?thesis
    by (rule exI[of _ w']) (intro conjI run ids vectors b log)
qed

theorem getDocumentsByMetadata_follows_cursors_witness:
  "page_chain paged_provider [(''source'', JStr ''b.txt'')] (backend demo_world) None
     [page_one, page_two]
   \<and> map_option fst (getDocumentsByMetadata paged_provider [(''source'', JStr ''b.txt'')] demo_world)
       = Some (Inr (map toDocument (resp_points page_one @ resp_points page_two)))
   \<and> page_chain demo_provider [(''source'', JStr ''b.txt'')] (backend demo_world) None
       [\<lparr>resp_points = [], resp_next_page_offset = None\<rparr>]
   \<and> map_option fst (getDocumentsByMetadata demo_provider [(''source'', JStr ''b.txt'')] demo_world)
       = Some (Inr [])"
proof -
  let ?filt = "[(''source'', JStr ''b.txt'')]"
  have two: "page_chain paged_provider ?filt (backend demo_world) None [page_one, page_two]"
    by (simp add: paged_provider_def scrollRequest_def page_one_def page_two_def)
  have none: "page_chain demo_provider ?filt (backend demo_world) None
       [\<lparr>resp_points = [], resp_next_page_offset = None\<rparr>]"
    by (simp add: demo_provider_def demo_client_def)
  from getDocumentsByMetadata_follows_cursors[OF two] obtain w2 where
    "getDocumentsByMetadata paged_provider ?filt demo_world =
       Some (Inr (map toDocument (concat (map resp_points [page_one, page_two]))), w2)"
    by (elim exE conjE)
  then have r2: "map_option fst (getDocumentsByMetadata paged_provider ?filt demo_world)
       = Some (Inr (map toDocument (resp_points page_one @ resp_points page_two)))"
    by simp
  from getDocumentsByMetadata_follows_cursors[OF none] obtain w0 where
    "getDocumentsByMetadata demo_provider ?filt demo_world =
       Some (Inr (map toDocument (concat (map resp_points
          [\<lparr>resp_points = [], resp_next_page_offset = None\<rparr> :: int list scroll_response]))), w0)"
    by (elim exE conjE)
  then have r0: "map_option fst (getDocumentsByMetadata demo_provider ?filt demo_world)
       = Some (Inr [])"
    by simp
  from two r2 none r0 show ?thesis by (intro conjI)
qed

end
